theory Spec2Isabelle
  imports Complex_Main "HOL-Library.Log_Nat"
begin

section \<open>Python floats\<close>

text \<open>
  Every number the service handles is a Python \<open>float\<close>, an IEEE 754 binary64 value:
  pydantic coerces each field of \<open>Shapes\<close> to \<open>float\<close>, and the integer literals of
  \<open>shapes_models.py\<close> are converted to \<open>float\<close> when they meet one. A float is a finite
  real number, an infinity or a NaN. The two zeros \<open>0.0\<close> and \<open>-0.0\<close> compare equal and
  are both \<open>Fin 0\<close>: the sign of a zero is not observable by any comparison of the program.
\<close>

datatype pyfloat = Fin real | PInf | NInf | NaN

text \<open>Rounding to the nearest integer, ties to the even one.\<close>

definition round_half_even :: "real \<Rightarrow> int" where
  "round_half_even y =
     (let f = \<lfloor>y\<rfloor>; d = y - of_int f
      in if d < 1 / 2 then f
         else if 1 / 2 < d then f + 1
         else if even f then f else f + 1)"

text \<open>
  The result of an arithmetic operation is its exact value rounded to binary64, to
  nearest, ties to even. In units of the smallest subnormal \<open>2 ^ -1074\<close>
  the magnitude is \<open>y\<close>; a magnitude of \<open>n\<close> bits keeps its leading 53 bits, so
  the spacing of the grid is \<open>2 ^ k\<close> with \<open>k = n - 53\<close> (and 0 in the subnormal range).
  A rounded magnitude of \<open>2 ^ 1024\<close> or more is an overflow to infinity.
\<close>

definition round_double :: "real \<Rightarrow> pyfloat" where
  "round_double x =
     (let y = \<bar>x\<bar> * 2 ^ 1074;
          k = nat (bitlen \<lfloor>y\<rfloor> - 53);
          m = round_half_even (y / 2 ^ k) * 2 ^ k
      in if 2 ^ 2098 \<le> m then (if x < 0 then NInf else PInf)
         else Fin (sgn x * of_int m / 2 ^ 1074))"

text \<open>
  The finite doubles: a significand of at most 53 bits times a power of two, from the
  smallest subnormal \<open>2 ^ -1074\<close> up to the largest finite double.
\<close>

definition is_double :: "real \<Rightarrow> bool" where
  "is_double x \<longleftrightarrow> (\<exists>m j. m < 2 ^ 53 \<and> j \<le> 2045 \<and> \<bar>x\<bar> * 2 ^ 1074 = real (m * 2 ^ j))"

text \<open>The comparison \<open>a <= b\<close>: false as soon as one side is a NaN.\<close>

fun float_le :: "pyfloat \<Rightarrow> pyfloat \<Rightarrow> bool" where
  "float_le NaN _ = False"
| "float_le _ NaN = False"
| "float_le NInf _ = True"
| "float_le _ PInf = True"
| "float_le PInf _ = False"
| "float_le _ NInf = False"
| "float_le (Fin a) (Fin b) = (a \<le> b)"

text \<open>The product \<open>a * b\<close> of two floats. It never raises.\<close>

fun float_mul :: "pyfloat \<Rightarrow> pyfloat \<Rightarrow> pyfloat" where
  "float_mul NaN _ = NaN"
| "float_mul _ NaN = NaN"
| "float_mul (Fin a) (Fin b) = round_double (a * b)"
| "float_mul (Fin a) PInf = (if a = 0 then NaN else if 0 < a then PInf else NInf)"
| "float_mul (Fin a) NInf = (if a = 0 then NaN else if 0 < a then NInf else PInf)"
| "float_mul PInf (Fin b) = (if b = 0 then NaN else if 0 < b then PInf else NInf)"
| "float_mul NInf (Fin b) = (if b = 0 then NaN else if 0 < b then NInf else PInf)"
| "float_mul PInf PInf = PInf"
| "float_mul PInf NInf = NInf"
| "float_mul NInf PInf = NInf"
| "float_mul NInf NInf = PInf"

text \<open>The sum \<open>a + b\<close> of two floats. It never raises.\<close>

fun float_add :: "pyfloat \<Rightarrow> pyfloat \<Rightarrow> pyfloat" where
  "float_add NaN _ = NaN"
| "float_add _ NaN = NaN"
| "float_add (Fin a) (Fin b) = round_double (a + b)"
| "float_add PInf NInf = NaN"
| "float_add NInf PInf = NaN"
| "float_add PInf _ = PInf"
| "float_add _ PInf = PInf"
| "float_add NInf _ = NInf"
| "float_add _ NInf = NInf"

text \<open>
  The exceptions of the arithmetic. \<open>str_exn\<close> is Python's \<open>str(e)\<close> (the text of
  \<open>errno\<close> 34 on Linux).
\<close>

datatype exn = OverflowError

definition str_exn :: "exn \<Rightarrow> string" where
  "str_exn e = (case e of OverflowError \<Rightarrow> ''(34, 'Numerical result out of range')'')"

text \<open>
  The power \<open>x ** 2\<close> is CPython's \<open>float_pow\<close> with the exponent \<open>2.0\<close>. It answers
  the special bases itself: \<open>nan ** 2\<close> is \<open>nan\<close>, \<open>(+-inf) ** 2\<close> is \<open>inf\<close>,
  \<open>0.0 ** 2\<close> is \<open>0.0\<close> and \<open>(+-1.0) ** 2\<close> is \<open>1.0\<close>. Any other base it hands, by its
  absolute value, to \<open>pow\<close> of the C library, and it raises \<open>OverflowError\<close> when \<open>pow\<close>
  returns an infinity, where a product would have returned \<open>inf\<close>.

  The C library is not part of the source, and its \<open>pow\<close> need not be correctly
  rounded (on glibc \<open>x ** 2\<close> and \<open>x * x\<close> differ in the last bit for some \<open>x\<close>). So
  \<open>pow(x, 2.0)\<close> is a parameter \<open>pw\<close> of the model, from a finite positive base to the
  float returned.
\<close>

type_synonym c_pow = "real \<Rightarrow> pyfloat"

fun float_pow2 :: "c_pow \<Rightarrow> pyfloat \<Rightarrow> exn + pyfloat" where
  "float_pow2 pw NaN = Inr NaN"
| "float_pow2 pw PInf = Inr PInf"
| "float_pow2 pw NInf = Inr PInf"
| "float_pow2 pw (Fin x) =
     (if x = 0 then Inr (Fin 0)
      else if \<bar>x\<bar> = 1 then Inr (Fin 1)
      else (case pw \<bar>x\<bar> of
              PInf \<Rightarrow> Inl OverflowError
            | NInf \<Rightarrow> Inl OverflowError
            | v \<Rightarrow> Inr v))"

text \<open>
  What the claims need of \<open>pow\<close>: it overflows when the square is \<open>2 ^ 1024\<close> or more,
  and returns a finite double when the square is at most the largest finite double,
  \<open>2 ^ 1024 - 2 ^ 971\<close>. No double has a square strictly between the two
  (\<open>double_square_fits_iff\<close>). A correctly rounded \<open>pow\<close> is one such function.
\<close>

definition pow_range_ok :: "c_pow \<Rightarrow> bool" where
  "pow_range_ok pw \<longleftrightarrow>
     (\<forall>x. (2 ^ 1024 \<le> x * x \<longrightarrow> pw x = PInf)
        \<and> (x * x \<le> 2 ^ 1024 - 2 ^ 971 \<longrightarrow> (\<exists>v. pw x = Fin v)))"

definition exact_pow2 :: c_pow where
  "exact_pow2 x = round_double (x * x)"

text \<open>\<open>math.pi\<close> is the double nearest to the number pi, \<open>0x1.921fb54442d18p+1\<close>.\<close>

definition math_pi :: pyfloat where
  "math_pi = Fin (884279719003555 / 2 ^ 48)"


section \<open>The Geometry Engine: \<open>shapes_models.py\<close>\<close>

text \<open>
  The methods of \<open>ShapesCalculator\<close> are called on the \<open>Routes\<close> object, which
  inherits them. Its attributes are the state a method could read or change, so every
  method takes the object and returns it with its value. (The attribute \<open>app\<close>, the
  FastAPI application, is left out.)
\<close>

record Routes =
  title :: string
  description :: string
  version :: string

text \<open>\<open>math.pi * (radius**2)\<close>: the only operation that can raise.\<close>

definition circle_area :: "c_pow \<Rightarrow> Routes \<Rightarrow> pyfloat \<Rightarrow> (exn + pyfloat) \<times> Routes" where
  "circle_area pw self radius =
     (case float_pow2 pw radius of
        Inl e \<Rightarrow> (Inl e, self)
      | Inr sq \<Rightarrow> (Inr (float_mul math_pi sq), self))"

text \<open>\<open>2*math.pi*radius\<close>, that is \<open>(2*math.pi)*radius\<close>.\<close>

definition circle_circumference :: "Routes \<Rightarrow> pyfloat \<Rightarrow> pyfloat \<times> Routes" where
  "circle_circumference self radius =
     (float_mul (float_mul (Fin 2) math_pi) radius, self)"

definition rectangle_area :: "Routes \<Rightarrow> pyfloat \<Rightarrow> pyfloat \<Rightarrow> pyfloat \<times> Routes" where
  "rectangle_area self length_v width_v = (float_mul length_v width_v, self)"

definition rectangle_perimeter :: "Routes \<Rightarrow> pyfloat \<Rightarrow> pyfloat \<Rightarrow> pyfloat \<times> Routes" where
  "rectangle_perimeter self length_v width_v =
     (float_mul (Fin 2) (float_add length_v width_v), self)"

text \<open>
  \<open>(1/2) * height * base\<close>, that is \<open>((1/2) * height) * base\<close>; the quotient \<open>1/2\<close> of
  two integers is the float \<open>0.5\<close>. The parameters are in the order of the source,
  \<open>height\<close> first.
\<close>

definition triangle_area :: "Routes \<Rightarrow> pyfloat \<Rightarrow> pyfloat \<Rightarrow> pyfloat \<times> Routes" where
  "triangle_area self height_v base_v =
     (float_mul (float_mul (round_double (1 / 2)) height_v) base_v, self)"

section \<open>The request model and its validator\<close>

text \<open>
  \<open>Shapes\<close>: five optional floats, \<open>None\<close> when the field is absent from the body or
  \<open>null\<close>. The field \<open>length\<close> is \<open>length_f\<close> here.
\<close>

record Shapes =
  radius :: "pyfloat option"
  base :: "pyfloat option"
  height :: "pyfloat option"
  length_f :: "pyfloat option"
  width :: "pyfloat option"

text \<open>
  What a request can fail with: pydantic's validation error, which lists the field name
  and the message of each field whose validator raised, or an \<open>HTTPException\<close> of a
  handler, with its status code and detail.
\<close>

datatype error =
    ValidationError "(string \<times> string) list"
  | HTTPException nat string

text \<open>The validator of all five fields: \<open>v is not None and v <= 0\<close> raises.\<close>

definition value_must_be_positive :: "pyfloat option \<Rightarrow> string + pyfloat option" where
  "value_must_be_positive v =
     (case v of
        None \<Rightarrow> Inr v
      | Some x \<Rightarrow>
          if float_le x (Fin 0) then Inl ''The value you entered must be positive''
          else Inr v)"

definition field_errors :: "string \<Rightarrow> pyfloat option \<Rightarrow> (string \<times> string) list" where
  "field_errors name v =
     (case value_must_be_positive v of
        Inl msg \<Rightarrow> [(name, msg)]
      | Inr _ \<Rightarrow> [])"

text \<open>
  Building the model from a request body: pydantic runs the validator on every field, in
  the order of declaration, and raises one error listing all the fields that failed.
  The validator returns its argument, so the model holds the values of the body.
\<close>

definition Shapes_validate :: "Shapes \<Rightarrow> error + Shapes" where
  "Shapes_validate body =
     (let errs = field_errors ''radius'' (radius body)
               @ field_errors ''base'' (base body)
               @ field_errors ''height'' (height body)
               @ field_errors ''length'' (length_f body)
               @ field_errors ''width'' (width body)
      in if errs = [] then Inr body else Inl (ValidationError errs))"

section \<open>The handlers: \<open>application_infastructructure.py\<close>\<close>

text \<open>
  A result is the dictionary a handler returns, in the order of its keys. The model ends
  where the handler returns or raises: how FastAPI turns the dictionary or the exception
  into a response is not in the source.
\<close>

type_synonym shape_result = "(string \<times> pyfloat) list"

definition calculate_circle ::
  "c_pow \<Rightarrow> Routes \<Rightarrow> Shapes \<Rightarrow> (error + shape_result) \<times> Routes" where
  "calculate_circle pw self shape =
     (case radius shape of
        None \<Rightarrow> (Inl (HTTPException 400 ''Radius is required''), self)
      | Some r \<Rightarrow>
          (case circle_area pw self r of
             (Inl e, s1) \<Rightarrow> (Inl (HTTPException 500 (str_exn e)), s1)
           | (Inr a, s1) \<Rightarrow>
               (case circle_circumference s1 r of
                  (c, s2) \<Rightarrow> (Inr [(''area'', a), (''circumference'', c)], s2))))"

definition calculate_rectangle :: "Routes \<Rightarrow> Shapes \<Rightarrow> (error + shape_result) \<times> Routes" where
  "calculate_rectangle self shape =
     (case (length_f shape, width shape) of
        (Some l, Some w) \<Rightarrow>
          (case rectangle_area self l w of
             (a, s1) \<Rightarrow>
               (case rectangle_perimeter s1 l w of
                  (p, s2) \<Rightarrow> (Inr [(''area'', a), (''perimeter'', p)], s2)))
      | _ \<Rightarrow> (Inl (HTTPException 400 ''Length and width are required''), self))"

definition calculate_triangle :: "Routes \<Rightarrow> Shapes \<Rightarrow> (error + shape_result) \<times> Routes" where
  "calculate_triangle self shape =
     (case (base shape, height shape) of
        (Some b, Some h) \<Rightarrow>
          (case triangle_area self h b of
             (a, s1) \<Rightarrow> (Inr [(''area'', a)], s1))
      | _ \<Rightarrow> (Inl (HTTPException 400 ''Base and height are required''), self))"

text \<open>
  A request to one of the three routes: FastAPI builds the \<open>Shapes\<close> model from the
  body, and calls the handler only when the model was built.
\<close>

datatype route = Circle | Rectangle | Triangle

definition handler ::
  "c_pow \<Rightarrow> route \<Rightarrow> Routes \<Rightarrow> Shapes \<Rightarrow> (error + shape_result) \<times> Routes" where
  "handler pw r = (case r of
      Circle \<Rightarrow> calculate_circle pw
    | Rectangle \<Rightarrow> calculate_rectangle
    | Triangle \<Rightarrow> calculate_triangle)"

definition post ::
  "c_pow \<Rightarrow> route \<Rightarrow> Routes \<Rightarrow> Shapes \<Rightarrow> (error + shape_result) \<times> Routes" where
  "post pw r self body =
     (case Shapes_validate body of
        Inl e \<Rightarrow> (Inl e, self)
      | Inr shape \<Rightarrow> handler pw r self shape)"

text \<open>The object that \<open>main.py\<close> builds and runs.\<close>

definition shapes_app :: Routes where
  "shapes_app =
     \<lparr>title = ''Shapes Calculator'',
      description = ''A web application to calculate areas and perimeters of shapes'',
      version = ''1.0.0''\<rparr>"

section \<open>The vocabulary of the specification\<close>

datatype field = Radius | Base | Height | Length | Width

definition fields :: "field list" where
  "fields = [Radius, Base, Height, Length, Width]"

definition field_name :: "field \<Rightarrow> string" where
  "field_name f = (case f of
      Radius \<Rightarrow> ''radius''
    | Base \<Rightarrow> ''base''
    | Height \<Rightarrow> ''height''
    | Length \<Rightarrow> ''length''
    | Width \<Rightarrow> ''width'')"

definition field_value :: "field \<Rightarrow> Shapes \<Rightarrow> pyfloat option" where
  "field_value f body = (case f of
      Radius \<Rightarrow> radius body
    | Base \<Rightarrow> base body
    | Height \<Rightarrow> height body
    | Length \<Rightarrow> length_f body
    | Width \<Rightarrow> width body)"

text \<open>The fields each shape requires, and the fields of its result.\<close>

definition required_fields :: "route \<Rightarrow> field list" where
  "required_fields r = (case r of
      Circle \<Rightarrow> [Radius]
    | Rectangle \<Rightarrow> [Length, Width]
    | Triangle \<Rightarrow> [Base, Height])"

definition required_missing :: "route \<Rightarrow> Shapes \<Rightarrow> bool" where
  "required_missing r body = list_ex (\<lambda>f. field_value f body = None) (required_fields r)"

definition result_fields :: "route \<Rightarrow> string list" where
  "result_fields r = (case r of
      Circle \<Rightarrow> [''area'', ''circumference'']
    | Rectangle \<Rightarrow> [''area'', ''perimeter'']
    | Triangle \<Rightarrow> [''area''])"

text \<open>\<open>v > 0\<close>, and \<open>v\<close> finite.\<close>

fun positive :: "pyfloat \<Rightarrow> bool" where
  "positive (Fin x) = (0 < x)"
| "positive PInf = True"
| "positive NInf = False"
| "positive NaN = False"

fun finite_float :: "pyfloat \<Rightarrow> bool" where
  "finite_float (Fin x) = True"
| "finite_float PInf = False"
| "finite_float NInf = False"
| "finite_float NaN = False"

text \<open>The invariant of a \<open>ShapeInput\<close>: any field present is strictly greater than zero.\<close>

definition present_positive :: "Shapes \<Rightarrow> bool" where
  "present_positive body =
     list_all (\<lambda>f. case field_value f body of None \<Rightarrow> True | Some v \<Rightarrow> positive v) fields"

definition present_finite :: "Shapes \<Rightarrow> bool" where
  "present_finite body =
     list_all (\<lambda>f. case field_value f body of None \<Rightarrow> True | Some v \<Rightarrow> finite_float v) fields"

text \<open>
  The square of the radius is \<open>2 ^ 1024\<close> or more, or at most the largest finite
  double. For a radius that is a double these are the two cases \<open>2 ^ 512 \<le> radius\<close>
  (about \<open>1.34e154\<close>) and \<open>radius < 2 ^ 512\<close>.
\<close>

definition radius_square_overflows :: "Shapes \<Rightarrow> bool" where
  "radius_square_overflows body =
     (case radius body of
        Some (Fin x) \<Rightarrow> 2 ^ 1024 \<le> x * x
      | _ \<Rightarrow> False)"

definition radius_square_fits :: "Shapes \<Rightarrow> bool" where
  "radius_square_fits body =
     (case radius body of
        Some (Fin x) \<Rightarrow> x * x \<le> 2 ^ 1024 - 2 ^ 971
      | _ \<Rightarrow> False)"

section \<open>Rounding\<close>

lemma round_half_even_of_int: "round_half_even (of_int i) = i"
  by (simp add: round_half_even_def)

lemma round_half_even_cases:
  "round_half_even y = \<lfloor>y\<rfloor> \<or> round_half_even y = \<lfloor>y\<rfloor> + 1"
  by (simp add: round_half_even_def Let_def)

lemma round_half_even_mono:
  assumes "y \<le> z"
  shows "round_half_even y \<le> round_half_even z"
proof (cases "\<lfloor>y\<rfloor> = \<lfloor>z\<rfloor>")
  case True
  with assms show ?thesis
    by (auto simp: round_half_even_def Let_def)
next
  case False
  with assms have "\<lfloor>y\<rfloor> + 1 \<le> \<lfloor>z\<rfloor>"
    using floor_mono [of y z] by linarith
  moreover have "round_half_even y \<le> \<lfloor>y\<rfloor> + 1"
    using round_half_even_cases [of y] by linarith
  moreover have "\<lfloor>z\<rfloor> \<le> round_half_even z"
    using round_half_even_cases [of z] by linarith
  ultimately show ?thesis by linarith
qed

lemma round_half_even_ge:
  assumes "even N" and "of_int N - 1 / 2 \<le> y"
  shows "N \<le> round_half_even y"
proof -
  have fl: "\<lfloor>of_int N - (1::real) / 2\<rfloor> = N - 1"
    by (rule floor_unique) auto
  have "round_half_even (of_int N - 1 / 2) = N"
    using assms(1) by (simp add: round_half_even_def Let_def fl)
  then show ?thesis
    using round_half_even_mono [OF assms(2)] by simp
qed

lemma round_half_even_less:
  assumes "y < of_int N - 1 / 2"
  shows "round_half_even y < N"
proof -
  have "y < of_int N" using assms by linarith
  then have "\<lfloor>y\<rfloor> < N" by (simp add: floor_less_iff)
  then have "\<lfloor>y\<rfloor> \<le> N - 1" by linarith
  then consider "\<lfloor>y\<rfloor> \<le> N - 2" | "\<lfloor>y\<rfloor> = N - 1" by linarith
  then show ?thesis
  proof cases
    case 1
    then show ?thesis using round_half_even_cases [of y] by linarith
  next
    case 2
    then have "y - of_int \<lfloor>y\<rfloor> < 1 / 2" using assms by simp
    then show ?thesis using 2 by (simp add: round_half_even_def Let_def)
  qed
qed

lemma round_half_even_error: "\<bar>of_int (round_half_even y) - y\<bar> \<le> 1 / 2"
  by (auto simp: round_half_even_def Let_def)

lemma grid_upper:
  fixes y :: real
  assumes "0 \<le> y"
  shows "y < 2 ^ (nat (bitlen \<lfloor>y\<rfloor> - int p) + p)"
proof -
  let ?n = "\<lfloor>y\<rfloor>" and ?k = "nat (bitlen \<lfloor>y\<rfloor> - int p)"
  have "bitlen ?n \<le> int (?k + p)" by simp
  then have "?n < 2 ^ nat (int (?k + p))"
    using bitlen_le_iff_power [of ?n "int (?k + p)"] by blast
  then have "?n < 2 ^ (?k + p)"
    by (simp only: nat_int)
  then have "?n + 1 \<le> 2 ^ (?k + p)" by simp
  then have "(of_int (?n + 1) :: real) \<le> of_int (2 ^ (?k + p))"
    by (simp only: of_int_le_iff)
  then have "of_int ?n + 1 \<le> (2::real) ^ (?k + p)" by simp
  moreover have "y < of_int ?n + 1" by linarith
  ultimately show ?thesis by linarith
qed

lemma grid_lower:
  fixes y :: real
  assumes "int p < bitlen \<lfloor>y\<rfloor>" and "1 \<le> p"
  shows "2 ^ (nat (bitlen \<lfloor>y\<rfloor> - int p) + (p - 1)) \<le> y"
proof -
  let ?n = "\<lfloor>y\<rfloor>"
  have "0 < bitlen ?n" using assms by linarith
  then have "2 ^ (nat (bitlen ?n) - 1) \<le> ?n"
    using bitlen_ge_iff_power [of "bitlen ?n" ?n] by simp
  moreover have "nat (bitlen ?n) - 1 = nat (bitlen ?n - int p) + (p - 1)"
    using assms by linarith
  ultimately have "2 ^ (nat (bitlen ?n - int p) + (p - 1)) \<le> ?n" by simp
  then have "(of_int (2 ^ (nat (bitlen ?n - int p) + (p - 1))) :: real) \<le> of_int ?n"
    by (simp only: of_int_le_iff)
  then have "(2::real) ^ (nat (bitlen ?n - int p) + (p - 1)) \<le> of_int ?n" by simp
  also have "\<dots> \<le> y" by simp
  finally show ?thesis .
qed

lemma grid_overflow_if:
  fixes y :: real and p E :: nat
  assumes p: "1 \<le> p" and E: "1 \<le> E"
    and T: "2 ^ (p + E) - 2 ^ (E - 1) \<le> y"
  defines "k \<equiv> nat (bitlen \<lfloor>y\<rfloor> - int p)"
  shows "2 ^ (p + E) \<le> round_half_even (y / 2 ^ k) * 2 ^ k"
proof -
  let ?r = "round_half_even (y / 2 ^ k)"
  have split: "(2::real) ^ (p + E) = 2 * 2 ^ (p + E - 1)"
    using p by (simp flip: power_Suc)
  have "(2::real) ^ (E - 1) \<le> 2 ^ (p + E - 1)"
    by (rule power_increasing) auto
  with T split have low: "(2::real) ^ (p + E - 1) \<le> y" by linarith
  then have "(of_int (2 ^ (p + E - 1)) :: real) \<le> y" by simp
  then have "2 ^ (p + E - 1) \<le> \<lfloor>y\<rfloor>" by (simp only: le_floor_iff)
  then have "int (p + E) \<le> bitlen \<lfloor>y\<rfloor>"
    using bitlen_ge_iff_power [of "int (p + E)" "\<lfloor>y\<rfloor>"] by (simp only: nat_int) blast
  then have bl: "int p < bitlen \<lfloor>y\<rfloor>" and kE: "E \<le> k"
    using E by (simp_all add: k_def)
  have lower: "2 ^ (k + (p - 1)) \<le> y"
    unfolding k_def by (rule grid_lower [OF bl p])
  show ?thesis
  proof (cases "k = E")
    case True
    have "(2::real) ^ (p + E) / 2 ^ E = 2 ^ p"
      by (simp add: power_add)
    moreover have "(2::real) ^ (E - 1) / 2 ^ E = 1 / 2"
      using E by (cases E) simp_all
    moreover have "(2 ^ (p + E) - 2 ^ (E - 1)) / 2 ^ E \<le> y / (2::real) ^ E"
      using T by (simp add: divide_right_mono)
    ultimately have "of_int (2 ^ p) - 1 / 2 \<le> y / (2::real) ^ E"
      by (simp add: diff_divide_distrib)
    moreover have "even ((2::int) ^ p)" using p by simp
    ultimately have "2 ^ p \<le> round_half_even (y / 2 ^ E)"
      by (rule round_half_even_ge [rotated])
    then have "2 ^ p * 2 ^ E \<le> round_half_even (y / 2 ^ E) * 2 ^ E"
      by (rule mult_right_mono) simp
    then show ?thesis by (simp add: True power_add)
  next
    case False
    with kE have "E + 1 \<le> k" by simp
    have "(2::real) ^ (p - 1) * 2 ^ k \<le> y"
      using lower by (simp add: power_add mult.commute)
    then have "(2::real) ^ (p - 1) \<le> y / 2 ^ k"
      by (simp add: pos_le_divide_eq)
    then have "of_int (2 ^ (p - 1)) \<le> y / (2::real) ^ k" by simp
    then have "round_half_even (of_int (2 ^ (p - 1))) \<le> ?r"
      by (rule round_half_even_mono)
    then have "2 ^ (p - 1) \<le> ?r"
      by (simp only: round_half_even_of_int)
    then have "2 ^ (p - 1) * 2 ^ k \<le> ?r * 2 ^ k"
      by (rule mult_right_mono) simp
    then have "2 ^ (p - 1 + k) \<le> ?r * 2 ^ k"
      by (simp only: power_add)
    moreover have "(2::int) ^ (p + E) \<le> 2 ^ (p - 1 + k)"
      by (rule power_increasing) (use \<open>E + 1 \<le> k\<close> p in auto)
    ultimately show ?thesis by (rule order_trans [rotated])
  qed
qed

lemma grid_overflow_only_if:
  fixes y :: real and p E :: nat
  assumes y: "0 \<le> y" and E: "1 \<le> E"
    and T: "y < 2 ^ (p + E) - 2 ^ (E - 1)"
  defines "k \<equiv> nat (bitlen \<lfloor>y\<rfloor> - int p)"
  shows "round_half_even (y / 2 ^ k) * 2 ^ k < 2 ^ (p + E)"
proof -
  let ?r = "round_half_even (y / 2 ^ k)"
  have "(0::real) < 2 ^ (E - 1)" by simp
  with T have "y < 2 ^ (p + E)" by linarith
  then have "y < of_int (2 ^ (p + E))" by simp
  then have "\<lfloor>y\<rfloor> < 2 ^ (p + E)" by (simp only: floor_less_iff)
  then have "bitlen \<lfloor>y\<rfloor> \<le> int (p + E)"
    using bitlen_le_iff_power [of "\<lfloor>y\<rfloor>" "int (p + E)"] by (simp only: nat_int) simp
  then have kE: "k \<le> E" by (simp add: k_def)
  show ?thesis
  proof (cases "k = E")
    case True
    have "(2::real) ^ (p + E) / 2 ^ E = 2 ^ p"
      by (simp add: power_add)
    moreover have "(2::real) ^ (E - 1) / 2 ^ E = 1 / 2"
      using E by (cases E) simp_all
    moreover have "y / (2::real) ^ E < (2 ^ (p + E) - 2 ^ (E - 1)) / 2 ^ E"
      using T by (simp add: divide_strict_right_mono)
    ultimately have "y / (2::real) ^ E < of_int (2 ^ p) - 1 / 2"
      by (simp add: diff_divide_distrib)
    then have "round_half_even (y / 2 ^ E) < 2 ^ p"
      by (rule round_half_even_less)
    then have "round_half_even (y / 2 ^ E) * 2 ^ E < 2 ^ p * 2 ^ E"
      by (rule mult_strict_right_mono) simp
    then show ?thesis by (simp add: True power_add)
  next
    case False
    with kE have "k < E" by simp
    have "y < 2 ^ (k + p)"
      unfolding k_def by (rule grid_upper [OF y])
    then have "y < 2 ^ p * 2 ^ k" by (simp add: power_add mult.commute)
    then have "y / 2 ^ k \<le> 2 ^ p"
      by (simp add: pos_divide_le_eq)
    then have "y / 2 ^ k \<le> of_int (2 ^ p)" by simp
    then have "?r \<le> round_half_even (of_int (2 ^ p))"
      by (rule round_half_even_mono)
    then have "?r \<le> 2 ^ p"
      by (simp only: round_half_even_of_int)
    then have "?r * 2 ^ k \<le> 2 ^ p * 2 ^ k"
      by (rule mult_right_mono) simp
    then have "?r * 2 ^ k \<le> 2 ^ (p + k)"
      by (simp only: power_add)
    moreover have "(2::int) ^ (p + k) < 2 ^ (p + E)"
      by (rule power_strict_increasing) (use \<open>k < E\<close> in auto)
    ultimately show ?thesis by (rule le_less_trans)
  qed
qed

lemma grid53_overflow_iff:
  fixes y :: real
  assumes "0 \<le> y"
  shows "2 ^ 2098 \<le> round_half_even (y / 2 ^ nat (bitlen \<lfloor>y\<rfloor> - 53)) * 2 ^ nat (bitlen \<lfloor>y\<rfloor> - 53)
     \<longleftrightarrow> 2 ^ 2098 - 2 ^ 2044 \<le> y"
proof -
  let ?M = "round_half_even (y / 2 ^ nat (bitlen \<lfloor>y\<rfloor> - 53)) * 2 ^ nat (bitlen \<lfloor>y\<rfloor> - 53)"
  have a: "2 ^ 2098 - 2 ^ 2044 \<le> y \<Longrightarrow> 2 ^ 2098 \<le> ?M"
    using grid_overflow_if [of 53 2045 y] by (simp del: power_numeral)
  have b: "y < 2 ^ 2098 - 2 ^ 2044 \<Longrightarrow> ?M < 2 ^ 2098"
    using grid_overflow_only_if [of y 2045 53] assms by (simp del: power_numeral)
  show ?thesis using a b by (meson leD leI)
qed

lemma threshold_units:
  fixes x :: real
  shows "2 ^ 2098 - 2 ^ 2044 \<le> x * 2 ^ 1074 \<longleftrightarrow> 2 ^ 1024 - 2 ^ 970 \<le> x"
proof -
  have "((2::real) ^ 1024 - 2 ^ 970) * 2 ^ 1074 = 2 ^ 2098 - 2 ^ 2044"
    by (simp del: power_numeral add: left_diff_distrib flip: power_add)
  moreover have "(2 ^ 1024 - 2 ^ 970) * 2 ^ 1074 \<le> x * (2::real) ^ 1074 \<longleftrightarrow> 2 ^ 1024 - 2 ^ 970 \<le> x"
    by (rule mult_le_cancel_right_pos) (simp del: power_numeral)
  ultimately show ?thesis by (simp only:)
qed

lemma round_double_overflow_iff:
  assumes "0 \<le> x"
  shows "round_double x = PInf \<longleftrightarrow> 2 ^ 1024 - 2 ^ 970 \<le> x"
proof -
  have "0 \<le> \<bar>x\<bar> * 2 ^ 1074" by (simp del: power_numeral)
  from grid53_overflow_iff [OF this] threshold_units [of x] assms
  show ?thesis
    by (simp del: power_numeral add: round_double_def Let_def)
qed

lemma round_double_nonneg:
  assumes "0 \<le> x" and "round_double x = Fin v"
  shows "0 \<le> v"
proof -
  define y where "y = \<bar>x\<bar> * 2 ^ 1074"
  define k where "k = nat (bitlen \<lfloor>y\<rfloor> - 53)"
  have "0 \<le> y / 2 ^ k" by (simp add: y_def del: power_numeral)
  then have "round_half_even (of_int 0) \<le> round_half_even (y / 2 ^ k)"
    by (intro round_half_even_mono) simp
  then have "0 \<le> round_half_even (y / 2 ^ k)"
    by (simp only: round_half_even_of_int)
  then have "0 \<le> sgn x * of_int (round_half_even (y / 2 ^ k) * 2 ^ k) / 2 ^ 1074"
    using assms(1) by (simp add: sgn_real_def del: power_numeral)
  moreover have "v = sgn x * of_int (round_half_even (y / 2 ^ k) * 2 ^ k) / 2 ^ 1074"
    using assms(2) unfolding round_double_def Let_def y_def k_def
    by (simp del: power_numeral split: if_splits)
  ultimately show ?thesis by simp
qed

lemma round_double_exact:
  fixes m j :: nat
  assumes m: "m < 2 ^ 53" and j: "j \<le> 2045"
    and x: "\<bar>x\<bar> * 2 ^ 1074 = real (m * 2 ^ j)"
  shows "round_double x = Fin x"
proof -
  define N where "N = int (m * 2 ^ j)"
  define k where "k = nat (bitlen N - 53)"
  have y: "\<bar>x\<bar> * 2 ^ 1074 = of_int N"
    using x by (simp add: N_def del: power_numeral)
  have "m * 2 ^ j < 2 ^ 53 * 2 ^ j" using m by (simp del: power_numeral)
  then have "m * 2 ^ j < 2 ^ (53 + j)" by (simp only: power_add)
  then have "N < int (2 ^ (53 + j))" unfolding N_def by (simp only: of_nat_less_iff)
  then have lt: "N < 2 ^ (53 + j)" by (simp del: power_numeral)
  then have "bitlen N \<le> int (53 + j)"
    using bitlen_le_iff_power [of N "int (53 + j)"] by (simp only: nat_int) simp
  then have kj: "k \<le> j" by (simp add: k_def)
  have "(2::nat) ^ j = 2 ^ (j - k) * 2 ^ k"
    using kj by (simp flip: power_add)
  then have Nk: "N = int (m * 2 ^ (j - k)) * 2 ^ k"
    by (simp add: N_def mult.assoc)
  have "(of_int (int (m * 2 ^ (j - k)) * 2 ^ k) :: real) / 2 ^ k = of_int (int (m * 2 ^ (j - k)))"
    by simp
  then have "(of_int N :: real) / 2 ^ k = of_int (int (m * 2 ^ (j - k)))"
    by (simp only: Nk [symmetric])
  then have "round_half_even (of_int N / 2 ^ k) = int (m * 2 ^ (j - k))"
    by (simp only: round_half_even_of_int)
  then have r: "round_half_even (of_int N / 2 ^ k) * 2 ^ k = N"
    by (simp only: Nk [symmetric])
  have "(2::int) ^ (53 + j) \<le> 2 ^ 2098"
    by (rule power_increasing) (use j in simp_all)
  with lt have fin: "\<not> 2 ^ 2098 \<le> N" by linarith
  have "sgn x * (\<bar>x\<bar> * 2 ^ 1074) / 2 ^ 1074 = sgn x * \<bar>x\<bar>"
    by (simp del: power_numeral)
  also have "\<dots> = x" by (simp add: sgn_real_def)
  finally have val: "sgn x * of_int N / 2 ^ 1074 = x"
    by (simp only: y)
  show ?thesis
    unfolding round_double_def Let_def y floor_of_int k_def [symmetric] r
    using fin val by (simp del: power_numeral)
qed

lemma round_double_relative_error:
  assumes low: "1 / 2 ^ 1022 \<le> x" and high: "x < 2 ^ 1024 - 2 ^ 970"
  shows "\<exists>v. round_double x = Fin v \<and> \<bar>v - x\<bar> \<le> x / 2 ^ 53"
proof -
  define y where "y = \<bar>x\<bar> * 2 ^ 1074"
  define k where "k = nat (bitlen \<lfloor>y\<rfloor> - 53)"
  define r where "r = round_half_even (y / 2 ^ k)"
  have "(0::real) < 1 / 2 ^ 1022" by (simp del: power_numeral)
  with low have x0: "0 < x" by linarith
  then have yx: "y = x * 2 ^ 1074" by (simp add: y_def)
  have "1 / 2 ^ 1022 * 2 ^ 1074 \<le> x * (2::real) ^ 1074"
    using low by (intro mult_right_mono) (simp_all del: power_numeral)
  moreover have "1 / 2 ^ 1022 * (2::real) ^ 1074 = 2 ^ 52"
    by (simp del: power_numeral add: power_diff [of 2 1022 1074, symmetric])
  ultimately have y52: "2 ^ 52 \<le> y" by (simp only: yx)
  have lower: "2 ^ (k + 52) \<le> y"
  proof (cases "int 53 < bitlen \<lfloor>y\<rfloor>")
    case True
    from grid_lower [OF True] show ?thesis by (simp add: k_def)
  next
    case False
    then have "k = 0" by (simp add: k_def)
    with y52 show ?thesis by simp
  qed
  have err: "\<bar>of_int r - y / 2 ^ k\<bar> \<le> 1 / 2"
    unfolding r_def by (rule round_half_even_error)
  have "\<bar>of_int (r * 2 ^ k) - y\<bar> = \<bar>of_int r - y / 2 ^ k\<bar> * 2 ^ k"
  proof -
    have "of_int (r * 2 ^ k) - y = (of_int r - y / 2 ^ k) * 2 ^ k"
      by (simp add: left_diff_distrib)
    then show ?thesis by (simp only: abs_mult) simp
  qed
  also have "\<dots> \<le> 1 / 2 * 2 ^ k"
    using err by (intro mult_right_mono) simp_all
  also have "\<dots> = 2 ^ (k + 52) / 2 ^ 53"
    by (simp add: power_add)
  also have "\<dots> \<le> y / 2 ^ 53"
    using lower by (intro divide_right_mono) simp_all
  finally have merr: "\<bar>of_int (r * 2 ^ k) - y\<bar> \<le> y / 2 ^ 53" .
  have "round_double x \<noteq> PInf"
    using round_double_overflow_iff [of x] x0 high by simp
  then have rd: "round_double x = Fin (sgn x * of_int (r * 2 ^ k) / 2 ^ 1074)"
    using x0 unfolding round_double_def Let_def y_def [symmetric] k_def [symmetric] r_def [symmetric]
    by (simp del: power_numeral of_int_mult of_int_power split: if_splits)
  define v where "v = of_int (r * 2 ^ k) / (2::real) ^ 1074"
  have "v - x = (of_int (r * 2 ^ k) - y) / 2 ^ 1074"
    by (simp add: v_def yx diff_divide_distrib del: power_numeral of_int_mult of_int_power)
  then have "\<bar>v - x\<bar> = \<bar>of_int (r * 2 ^ k) - y\<bar> / 2 ^ 1074"
    by (simp del: power_numeral of_int_mult of_int_power)
  also have "\<dots> \<le> y / 2 ^ 53 / 2 ^ 1074"
    using merr by (intro divide_right_mono) (simp_all del: power_numeral)
  also have "\<dots> = x / 2 ^ 53"
  proof -
    have "y / 2 ^ 53 / 2 ^ 1074 = (x * 2 ^ 1074) / (2 ^ 53 * 2 ^ 1074)"
      by (simp only: yx divide_divide_eq_left)
    also have "\<dots> = x / 2 ^ 53"
      by (rule mult_divide_mult_cancel_right) (simp del: power_numeral)
    finally show ?thesis .
  qed
  finally have "\<bar>v - x\<bar> \<le> x / 2 ^ 53" .
  moreover have "round_double x = Fin v"
    using rd x0 by (simp add: v_def del: power_numeral of_int_mult of_int_power)
  ultimately show ?thesis by blast
qed

lemma float_mul_relative_error:
  assumes "1 / 2 ^ 1022 \<le> a * b" and "a * b < 2 ^ 1024 - 2 ^ 970"
  shows "\<exists>v. float_mul (Fin a) (Fin b) = Fin v \<and> \<bar>v - a * b\<bar> \<le> a * b / 2 ^ 53"
  using round_double_relative_error [OF assms] by simp

lemma round_double_is_double:
  assumes "round_double x = Fin v"
  shows "is_double v"
proof -
  define y where "y = \<bar>x\<bar> * 2 ^ 1074"
  define k where "k = nat (bitlen \<lfloor>y\<rfloor> - 53)"
  define r where "r = round_half_even (y / 2 ^ k)"
  have y0: "0 \<le> y" by (simp add: y_def del: power_numeral)
  have small: "r * 2 ^ k < 2 ^ 2098"
    and v: "v = sgn x * of_int (r * 2 ^ k) / 2 ^ 1074"
    using assms unfolding round_double_def Let_def y_def [symmetric] k_def [symmetric] r_def [symmetric]
    by (simp_all del: power_numeral split: if_splits)
  have "round_half_even (of_int 0) \<le> round_half_even (y / 2 ^ k)"
    using y0 by (intro round_half_even_mono) simp
  then have r0: "0 \<le> r" by (simp only: round_half_even_of_int r_def)
  have "y < 2 ^ (k + 53)"
    using grid_upper [OF y0, of 53] by (simp add: k_def)
  then have "y < 2 ^ 53 * 2 ^ k" by (simp add: power_add mult.commute)
  then have "y / 2 ^ k \<le> of_int (2 ^ 53)"
    by (simp add: pos_divide_le_eq del: power_numeral)
  then have "r \<le> round_half_even (of_int (2 ^ 53))"
    unfolding r_def by (rule round_half_even_mono)
  then have r53: "r \<le> 2 ^ 53" by (simp only: round_half_even_of_int)
  have mag: "\<bar>v\<bar> * 2 ^ 1074 = of_int (r * 2 ^ k)"
  proof (cases "x = 0")
    case True
    then have "y = 0" by (simp add: y_def)
    then have "r = 0" by (simp add: r_def round_half_even_def)
    then show ?thesis using v by simp
  next
    case False
    then have "\<bar>sgn x\<bar> = 1" by (simp add: sgn_real_def)
    moreover have "\<bar>of_int (r * 2 ^ k) :: real\<bar> = of_int (r * 2 ^ k)"
      using r0 by simp
    ultimately have "\<bar>v\<bar> = of_int (r * 2 ^ k) / 2 ^ 1074"
      unfolding v by (simp add: abs_mult del: power_numeral of_int_mult of_int_power)
    then show ?thesis by (simp del: power_numeral of_int_mult of_int_power)
  qed
  show ?thesis
  proof (cases "r = 2 ^ 53")
    case True
    with small have "(2::int) ^ 53 * 2 ^ k < 2 ^ 2098" by (simp only:)
    then have "(2::int) ^ (53 + k) < 2 ^ 2098" by (simp only: power_add)
    then have "53 + k < 2098" by (simp only: power_strict_increasing_iff)
    then have "k + 1 \<le> 2045" by simp
    moreover have "r * 2 ^ k = int (2 ^ 52 * 2 ^ (k + 1))"
      using True by simp
    then have "\<bar>v\<bar> * 2 ^ 1074 = real (2 ^ 52 * 2 ^ (k + 1))"
      using mag by (simp only: of_int_of_nat_eq)
    moreover have "(2::nat) ^ 52 < 2 ^ 53" by simp
    ultimately show ?thesis unfolding is_double_def by blast
  next
    case False
    with r53 have rlt: "r < 2 ^ 53" by simp
    have "k \<le> 2045"
    proof (cases "k = 0")
      case True
      then show ?thesis by simp
    next
      case False
      then have bl: "int 53 < bitlen \<lfloor>y\<rfloor>" by (simp add: k_def)
      have "2 ^ (k + (53 - 1)) \<le> y"
        using grid_lower [OF bl] by (simp add: k_def)
      then have "(2::real) ^ 52 * 2 ^ k \<le> y" by (simp add: power_add mult.commute)
      then have "of_int (2 ^ 52) \<le> y / 2 ^ k"
        by (simp add: pos_le_divide_eq del: power_numeral)
      then have "round_half_even (of_int (2 ^ 52)) \<le> r"
        unfolding r_def by (rule round_half_even_mono)
      then have "2 ^ 52 \<le> r" by (simp only: round_half_even_of_int)
      then have "2 ^ 52 * 2 ^ k \<le> r * 2 ^ k"
        by (rule mult_right_mono) simp
      then have "2 ^ (52 + k) \<le> r * 2 ^ k" by (simp only: power_add)
      then have "(2::int) ^ (52 + k) < 2 ^ 2098" using small by (rule le_less_trans)
      then have "52 + k < 2098" by (simp only: power_strict_increasing_iff)
      then show ?thesis by simp
    qed
    moreover have "nat r < 2 ^ 53" using rlt r0 by (simp add: nat_less_iff)
    moreover have "r * 2 ^ k = int (nat r * 2 ^ k)" using r0 by simp
    then have "\<bar>v\<bar> * 2 ^ 1074 = real (nat r * 2 ^ k)"
      using mag by (simp only: of_int_of_nat_eq)
    ultimately show ?thesis unfolding is_double_def by blast
  qed
qed

lemma round_double_idempotent:
  "round_double x = Fin v \<Longrightarrow> round_double v = Fin v"
  using round_double_is_double [of x v] round_double_exact [of _ _ v]
  unfolding is_double_def by blast

lemma double_below_power:
  fixes m j n :: nat
  assumes m: "m < 2 ^ 53" and lt: "m * 2 ^ j < 2 ^ (n + 53)"
  shows "m * 2 ^ j + 2 ^ n \<le> 2 ^ (n + 53)"
proof (cases "n \<le> j")
  case True
  show ?thesis
  proof (cases "j \<le> n + 53")
    case le: True
    then have e: "(2::nat) ^ (n + 53) = 2 ^ (n + 53 - j) * 2 ^ j"
      by (simp flip: power_add)
    with lt have "m < 2 ^ (n + 53 - j)" by simp
    then have "m + 1 \<le> 2 ^ (n + 53 - j)" by simp
    then have "(m + 1) * 2 ^ j \<le> 2 ^ (n + 53 - j) * 2 ^ j"
      by (rule mult_le_mono1)
    then have "m * 2 ^ j + 2 ^ j \<le> 2 ^ (n + 53)"
      by (simp add: e add_mult_distrib)
    moreover have "(2::nat) ^ n \<le> 2 ^ j"
      using True by (simp add: power_increasing)
    ultimately show ?thesis by linarith
  next
    case False
    then have a: "(2::nat) ^ (n + 53) \<le> 2 ^ j" by (simp add: power_increasing)
    show ?thesis
    proof (cases "m = 0")
      case True
      moreover have "(2::nat) ^ n \<le> 2 ^ (n + 53)" by (simp add: power_increasing)
      ultimately show ?thesis by simp
    next
      case False
      then have "2 ^ j \<le> m * 2 ^ j" by simp
      with a lt have False by linarith
      then show ?thesis ..
    qed
  qed
next
  case False
  then have "j + 1 \<le> n" by simp
  have "m * 2 ^ j \<le> 2 ^ 53 * 2 ^ j" using m by simp
  also have "\<dots> = 2 ^ (j + 53)" by (simp add: power_add)
  also have "\<dots> \<le> 2 ^ (n - 1 + 53)"
    using \<open>j + 1 \<le> n\<close> by (intro power_increasing) auto
  finally have "m * 2 ^ j \<le> 2 ^ (n - 1 + 53)" .
  moreover have "(2::nat) ^ n \<le> 2 ^ (n - 1 + 53)"
    by (intro power_increasing) auto
  moreover have "n + 53 = Suc (n - 1 + 53)"
    using \<open>j + 1 \<le> n\<close> by simp
  then have "(2::nat) ^ (n + 53) = 2 * 2 ^ (n - 1 + 53)"
    by (simp only: power_Suc)
  ultimately show ?thesis by linarith
qed

lemma double_square_fits_iff:
  assumes d: "is_double x" and x: "0 \<le> x"
  shows "x * x \<le> 2 ^ 1024 - 2 ^ 971 \<longleftrightarrow> x < 2 ^ 512"
proof
  assume fits: "x * x \<le> 2 ^ 1024 - 2 ^ 971"
  show "x < 2 ^ 512"
  proof (rule ccontr)
    assume "\<not> x < 2 ^ 512"
    then have "2 ^ 512 \<le> x" by simp
    then have "2 ^ 512 * 2 ^ 512 \<le> x * x"
      using x by (intro mult_mono) (simp_all del: power_numeral)
    then have "2 ^ 1024 \<le> x * x"
      by (simp del: power_numeral flip: power_add)
    moreover have "(0::real) < 2 ^ 971" by (simp del: power_numeral)
    ultimately show False using fits by linarith
  qed
next
  assume lt: "x < 2 ^ 512"
  from d obtain m j :: nat where m: "m < 2 ^ 53"
    and mj: "\<bar>x\<bar> * 2 ^ 1074 = real (m * 2 ^ j)"
    unfolding is_double_def by blast
  have "x * 2 ^ 1074 < 2 ^ 512 * 2 ^ 1074"
    using lt by (intro mult_strict_right_mono) (simp_all del: power_numeral)
  then have "real (m * 2 ^ j) < 2 ^ (1533 + 53)"
    using mj x by (simp del: power_numeral flip: power_add)
  then have "real (m * 2 ^ j) < real (2 ^ (1533 + 53))"
    by (simp del: power_numeral)
  then have "m * 2 ^ j < 2 ^ (1533 + 53)"
    by (simp only: of_nat_less_iff)
  from double_below_power [OF m this]
  have "real (m * 2 ^ j + 2 ^ 1533) \<le> real (2 ^ (1533 + 53))"
    by (simp only: of_nat_le_iff)
  then have "x * 2 ^ 1074 + 2 ^ 1533 \<le> 2 ^ 1586"
    using mj x by (simp del: power_numeral)
  moreover have "(2::real) ^ 1533 = 2 ^ 459 * 2 ^ 1074"
    and "(2::real) ^ 1586 = 2 ^ 512 * 2 ^ 1074"
    by (simp_all del: power_numeral flip: power_add)
  ultimately have "(x + 2 ^ 459) * 2 ^ 1074 \<le> 2 ^ 512 * (2::real) ^ 1074"
    by (simp only: distrib_right)
  then have "x + 2 ^ 459 \<le> 2 ^ 512"
    by (rule mult_right_le_imp_le) (simp del: power_numeral)
  then have le: "x \<le> 2 ^ 512 - 2 ^ 459" by linarith
  have "(0::real) \<le> 2 ^ 512 - 2 ^ 459" by simp
  with le x have "x * x \<le> (2 ^ 512 - 2 ^ 459) * (2 ^ 512 - 2 ^ 459)"
    by (intro mult_mono) simp_all
  moreover have "((2::real) ^ 512 - 2 ^ 459) * (2 ^ 512 - 2 ^ 459) \<le> 2 ^ 1024 - 2 ^ 971"
    by simp
  ultimately show "x * x \<le> 2 ^ 1024 - 2 ^ 971" by linarith
qed

lemma square_overflows_iff:
  fixes x :: real
  assumes "0 \<le> x"
  shows "2 ^ 1024 \<le> x * x \<longleftrightarrow> 2 ^ 512 \<le> x"
proof
  assume big: "2 ^ 1024 \<le> x * x"
  show "2 ^ 512 \<le> x"
  proof (rule ccontr)
    assume "\<not> 2 ^ 512 \<le> x"
    then have "x * x < 2 ^ 512 * 2 ^ 512"
      using assms by (intro mult_strict_mono') simp_all
    then have "x * x < 2 ^ 1024"
      by (simp del: power_numeral flip: power_add)
    with big show False by linarith
  qed
next
  assume "2 ^ 512 \<le> x"
  then have "2 ^ 512 * 2 ^ 512 \<le> x * x"
    using assms by (intro mult_mono) (simp_all del: power_numeral)
  then show "2 ^ 1024 \<le> x * x"
    by (simp del: power_numeral flip: power_add)
qed

lemma round_double_cases:
  assumes "0 \<le> x"
  shows "round_double x = PInf \<or> (\<exists>v. round_double x = Fin v)"
  using assms by (simp add: round_double_def Let_def del: power_numeral)

lemma exact_pow2_range_ok: "pow_range_ok exact_pow2"
  unfolding pow_range_ok_def
proof (intro allI conjI impI)
  fix x :: real
  have nn: "0 \<le> x * x" by simp
  have le: "(2::real) ^ 1024 - 2 ^ 970 \<le> 2 ^ 1024" by (simp del: power_numeral)
  have lt: "(2::real) ^ 1024 - 2 ^ 971 < 2 ^ 1024 - 2 ^ 970" by simp
  {
    assume "2 ^ 1024 \<le> x * x"
    with le have "2 ^ 1024 - 2 ^ 970 \<le> x * x" by linarith
    then show "exact_pow2 x = PInf"
      by (simp only: exact_pow2_def round_double_overflow_iff [OF nn])
  next
    assume "x * x \<le> 2 ^ 1024 - 2 ^ 971"
    with lt have "\<not> 2 ^ 1024 - 2 ^ 970 \<le> x * x" by linarith
    then have "round_double (x * x) \<noteq> PInf"
      by (simp only: round_double_overflow_iff [OF nn] not_False_eq_True)
    with round_double_cases [OF nn] show "\<exists>v. exact_pow2 x = Fin v"
      by (simp only: exact_pow2_def) blast
  }
qed

lemma round_double_half: "round_double (1 / 2) = Fin (1 / 2)"
  by (rule round_double_exact [of 1 1073]) simp_all

lemma two_math_pi: "float_mul (Fin 2) math_pi = Fin (884279719003555 / 2 ^ 47)"
  using round_double_exact [of 884279719003555 1027 "884279719003555 / 2 ^ 47"]
  by (simp add: math_pi_def)

section \<open>Validation and dispatch\<close>

lemma positive_not_le: "positive v \<Longrightarrow> \<not> float_le v (Fin 0)"
  by (cases v) simp_all

lemma field_errors_empty_iff:
  "field_errors name v = [] \<longleftrightarrow> (\<forall>x. v = Some x \<longrightarrow> \<not> float_le x (Fin 0))"
  by (simp add: field_errors_def value_must_be_positive_def split: option.splits)

lemma field_errors_nonpositive:
  "float_le x (Fin 0) \<Longrightarrow>
   field_errors name (Some x) = [(name, ''The value you entered must be positive'')]"
  by (simp add: field_errors_def value_must_be_positive_def)

lemma Shapes_validate_cases:
  "Shapes_validate body = Inr body \<or> (\<exists>errs. Shapes_validate body = Inl (ValidationError errs))"
  by (simp add: Shapes_validate_def Let_def)

lemma Shapes_validate_Inr:
  "Shapes_validate body = Inr shape \<Longrightarrow> shape = body"
  by (simp add: Shapes_validate_def Let_def split: if_splits)

lemma Shapes_validate_positive:
  assumes "present_positive body"
  shows "Shapes_validate body = Inr body"
proof -
  have "field_errors name (field_value f body) = []" for name f
    using assms
    by (cases f)
       (auto simp: present_positive_def fields_def field_errors_empty_iff
             dest: positive_not_le)
  from this [of _ Radius] this [of _ Base] this [of _ Height] this [of _ Length] this [of _ Width]
  show ?thesis
    by (simp add: Shapes_validate_def field_value_def)
qed

lemma Shapes_validate_nonpositive:
  assumes "field_value f body = Some v" and "float_le v (Fin 0)"
  shows "\<exists>errs. Shapes_validate body = Inl (ValidationError errs)
     \<and> (field_name f, ''The value you entered must be positive'') \<in> set errs"
  using assms
  by (cases f)
     (simp_all add: Shapes_validate_def field_value_def field_name_def
        field_errors_nonpositive)

lemma post_valid:
  "Shapes_validate body = Inr shape \<Longrightarrow> post pw r self body = handler pw r self body"
  by (simp add: post_def Shapes_validate_def Let_def split: if_splits)

lemma post_invalid:
  "Shapes_validate body = Inl e \<Longrightarrow> post pw r self body = (Inl e, self)"
  by (simp add: post_def)

lemma float_pow2_overflow:
  assumes "pow_range_ok pw" and "2 ^ 1024 \<le> x * x"
  shows "float_pow2 pw (Fin x) = Inl OverflowError"
proof -
  have "x * x = \<bar>x\<bar> * \<bar>x\<bar>" by simp
  with assms have "pw \<bar>x\<bar> = PInf"
    unfolding pow_range_ok_def by (metis (no_types))
  moreover have "(1::real) < 2 ^ 1024"
    by (rule one_less_power) simp_all
  with assms(2) have big: "1 < x * x" by linarith
  then have "x \<noteq> 0" by auto
  moreover have "\<bar>x\<bar> \<noteq> 1"
  proof
    assume "\<bar>x\<bar> = 1"
    then have "\<bar>x\<bar> * \<bar>x\<bar> = 1" by simp
    then have "x * x = 1" by simp
    with big show False by simp
  qed
  ultimately show ?thesis by simp
qed

lemma float_pow2_fits:
  assumes "pow_range_ok pw" and "x * x \<le> 2 ^ 1024 - 2 ^ 971"
  shows "\<exists>v. float_pow2 pw (Fin x) = Inr (Fin v)"
proof -
  have "x * x = \<bar>x\<bar> * \<bar>x\<bar>" by simp
  with assms obtain v where "pw \<bar>x\<bar> = Fin v"
    unfolding pow_range_ok_def by (metis (no_types))
  then show ?thesis by simp
qed

lemma float_pow2_exact_2: "float_pow2 exact_pow2 (Fin 2) = Inr (Fin 4)"
  using round_double_exact [of 4 1074 4] by (simp add: exact_pow2_def)

lemma calculate_circle_missing_radius:
  "radius shape = None \<Longrightarrow>
   calculate_circle pw self shape = (Inl (HTTPException 400 ''Radius is required''), self)"
  by (simp add: calculate_circle_def)

lemma handler_result_fields:
  "handler pw r self shape = (Inr res, s') \<Longrightarrow> map fst res = result_fields r"
  by (cases r)
     (auto simp: handler_def calculate_circle_def calculate_rectangle_def
        calculate_triangle_def circle_area_def circle_circumference_def rectangle_area_def
        rectangle_perimeter_def triangle_area_def result_fields_def
        split: option.splits sum.splits)

lemma handler_circle:
  "radius shape = Some r \<Longrightarrow>
   handler pw Circle self shape =
     (case float_pow2 pw r of
        Inl e \<Rightarrow> (Inl (HTTPException 500 (str_exn e)), self)
      | Inr sq \<Rightarrow>
          (Inr [(''area'', float_mul math_pi sq),
                (''circumference'', float_mul (float_mul (Fin 2) math_pi) r)], self))"
  by (simp add: handler_def calculate_circle_def circle_area_def circle_circumference_def
        split: sum.split del: float_mul.simps)

lemma handler_rectangle:
  "length_f shape = Some l \<Longrightarrow> width shape = Some w \<Longrightarrow>
   handler pw Rectangle self shape =
     (Inr [(''area'', float_mul l w), (''perimeter'', float_mul (Fin 2) (float_add l w))], self)"
  by (simp add: handler_def calculate_rectangle_def rectangle_area_def rectangle_perimeter_def)

lemma handler_triangle:
  "base shape = Some b \<Longrightarrow> height shape = Some h \<Longrightarrow>
   handler pw Triangle self shape =
     (Inr [(''area'', float_mul (float_mul (Fin (1 / 2)) h) b)], self)"
  by (simp add: handler_def calculate_triangle_def triangle_area_def round_double_half
        del: float_mul.simps)

lemma handler_missing:
  "required_missing r shape \<Longrightarrow> \<exists>d. handler pw r self shape = (Inl (HTTPException 400 d), self)"
  by (cases r)
     (auto simp: required_missing_def required_fields_def field_value_def handler_def
        calculate_circle_def calculate_rectangle_def calculate_triangle_def
        split: option.splits)

lemma handler_required_only:
  "list_all (\<lambda>f. field_value f s1 = field_value f s2) (required_fields r) \<Longrightarrow>
   handler pw r self s1 = handler pw r self s2"
  by (cases r)
     (simp_all add: required_fields_def field_value_def handler_def
        calculate_circle_def calculate_rectangle_def calculate_triangle_def)

section \<open>The scenarios of the specification\<close>

text \<open>
  Small integers and \<open>4 * math.pi\<close> are doubles, so these operations are exact. The
  area and the circumference of the circle of radius 2 are both the double
  \<open>12.566370614359172\<close>, which is \<open>884279719003555 / 2 ^ 46\<close>.
\<close>

lemma round_double_12: "round_double 12 = Fin 12"
  by (rule round_double_exact [of 12 1074]) simp_all

lemma round_double_7: "round_double 7 = Fin 7"
  by (rule round_double_exact [of 7 1074]) simp_all

lemma round_double_14: "round_double 14 = Fin 14"
  by (rule round_double_exact [of 14 1074]) simp_all



lemma round_double_4: "round_double 4 = Fin 4"
  by (rule round_double_exact [of 4 1074]) simp_all

lemma round_double_4pi: "round_double (884279719003555 / 2 ^ 46) = Fin (884279719003555 / 2 ^ 46)"
  by (rule round_double_exact [of 884279719003555 1028]) simp_all

lemma post_rectangle_3_4:
  "post pw Rectangle self
      \<lparr>radius = None, base = None, height = None,
       length_f = Some (Fin 3), width = Some (Fin 4)\<rparr>
    = (Inr [(''area'', Fin 12), (''perimeter'', Fin 14)], self)"
proof -
  let ?b = "\<lparr>radius = None, base = None, height = None,
       length_f = Some (Fin 3), width = Some (Fin 4)\<rparr>"
  have "present_positive ?b"
    by (simp add: present_positive_def fields_def field_value_def)
  then have "post pw Rectangle self ?b = handler pw Rectangle self ?b"
    by (rule post_valid [OF Shapes_validate_positive])
  then show ?thesis
    by (simp add: handler_rectangle round_double_12 round_double_7 round_double_14)
qed


lemma post_circle_2:
  "post exact_pow2 Circle self
      \<lparr>radius = Some (Fin 2), base = None, height = None, length_f = None, width = None\<rparr>
    = (Inr [(''area'', Fin (884279719003555 / 2 ^ 46)),
            (''circumference'', Fin (884279719003555 / 2 ^ 46))], self)"
proof -
  let ?b = "\<lparr>radius = Some (Fin 2), base = None, height = None, length_f = None, width = None\<rparr>"
  have "present_positive ?b"
    by (simp add: present_positive_def fields_def field_value_def)
  then have "post exact_pow2 Circle self ?b = handler exact_pow2 Circle self ?b"
    by (rule post_valid [OF Shapes_validate_positive])
  then show ?thesis
    using handler_circle [of ?b "Fin 2" exact_pow2 self] round_double_4pi two_math_pi
    by (simp add: float_pow2_exact_2 math_pi_def del: float_pow2.simps)
qed

section \<open>The claims\<close>

text \<open>
  C1, as stated, fails for NaN and for positive infinity: \<open>nan <= 0\<close> and \<open>inf <= 0\<close>
  are both false, so the validator accepts the value, and the circle handler returns a
  result for such a radius (\<open>1e999\<close> in a JSON body is parsed as \<open>inf\<close>).
\<close>

theorem infinite_and_nan_radius_accepted:
  "post exact_pow2 Circle shapes_app
     \<lparr>radius = Some PInf, base = None, height = None, length_f = None, width = None\<rparr>
   = (Inr [(''area'', PInf), (''circumference'', PInf)], shapes_app)
 \<and> post exact_pow2 Circle shapes_app
     \<lparr>radius = Some NaN, base = None, height = None, length_f = None, width = None\<rparr>
   = (Inr [(''area'', NaN), (''circumference'', NaN)], shapes_app)"
  by (simp add: post_def Shapes_validate_def field_errors_def value_must_be_positive_def
        handler_def calculate_circle_def circle_area_def circle_circumference_def
        two_math_pi del: float_mul.simps)
     (simp add: math_pi_def)

text \<open>
  C1, amended. For every shape operation and every field present in the body, if the
  value of the field is less than or equal to zero (minus infinity included), the
  request fails with the validation error, which names the field, and no result is
  produced. NaN and positive infinity pass the validator.
\<close>

theorem nonpositive_field_rejected:
  "(field_value f body = Some v \<and> float_le v (Fin 0) \<longrightarrow>
      (\<exists>errs. post pw r self body = (Inl (ValidationError errs), self)
         \<and> (field_name f, ''The value you entered must be positive'') \<in> set errs))
 \<and> value_must_be_positive (Some NaN) = Inr (Some NaN)
 \<and> value_must_be_positive (Some PInf) = Inr (Some PInf)"
proof (intro conjI impI)
  assume "field_value f body = Some v \<and> float_le v (Fin 0)"
  then obtain errs where "Shapes_validate body = Inl (ValidationError errs)"
    and "(field_name f, ''The value you entered must be positive'') \<in> set errs"
    using Shapes_validate_nonpositive by blast
  then show "\<exists>errs. post pw r self body = (Inl (ValidationError errs), self)
         \<and> (field_name f, ''The value you entered must be positive'') \<in> set errs"
    by (auto simp: post_invalid)
qed (simp_all add: value_must_be_positive_def)

theorem nonpositive_field_rejected_witness:
  "field_value Width
     \<lparr>radius = None, base = None, height = None,
      length_f = Some (Fin 3), width = Some (Fin (- 4))\<rparr> = Some (Fin (- 4))
 \<and> float_le (Fin (- 4)) (Fin 0)
 \<and> (\<exists>errs. post exact_pow2 Rectangle shapes_app
       \<lparr>radius = None, base = None, height = None,
        length_f = Some (Fin 3), width = Some (Fin (- 4))\<rparr>
       = (Inl (ValidationError errs), shapes_app)
     \<and> (''width'', ''The value you entered must be positive'') \<in> set errs)"
  using nonpositive_field_rejected
    [of Width "\<lparr>radius = None, base = None, height = None,
        length_f = Some (Fin 3), width = Some (Fin (- 4))\<rparr>" "Fin (- 4)" exact_pow2 Rectangle shapes_app]
  by (simp add: field_value_def field_name_def)








text \<open>
  C5, as stated, fails for a body that has no radius and a field that the validator
  rejects: the validator runs first, so the request fails with the validation error, not
  with \<open>Radius is required\<close>.
\<close>

theorem circle_without_radius_invalid_width:
  "radius \<lparr>radius = None, base = None, height = None, length_f = None, width = Some (Fin 0)\<rparr>
     = None
 \<and> post exact_pow2 Circle shapes_app
      \<lparr>radius = None, base = None, height = None, length_f = None, width = Some (Fin 0)\<rparr>
    = (Inl (ValidationError [(''width'', ''The value you entered must be positive'')]),
       shapes_app)"
  by (simp add: post_def Shapes_validate_def field_errors_def value_must_be_positive_def)

text \<open>
  C5, amended. For every circle request whose input lacks the radius field and whose
  present fields all pass the validator, the operation fails with the \<open>HTTPException\<close>
  with status 400 and detail \<open>Radius is required\<close>. The outcome is that error and
  nothing else: the handler returns before the \<open>try\<close> block, so no method of the engine
  is called, no result is built, and the object is unchanged.
\<close>

theorem circle_missing_radius:
  "radius body = None \<Longrightarrow> Shapes_validate body = Inr body \<Longrightarrow>
   post pw Circle self body = (Inl (HTTPException 400 ''Radius is required''), self)"
  by (simp add: post_def handler_def calculate_circle_missing_radius)

theorem circle_missing_radius_witness:
  "radius \<lparr>radius = None, base = Some (Fin 5), height = None, length_f = None, width = None\<rparr>
     = None
 \<and> Shapes_validate
      \<lparr>radius = None, base = Some (Fin 5), height = None, length_f = None, width = None\<rparr>
   = Inr \<lparr>radius = None, base = Some (Fin 5), height = None, length_f = None, width = None\<rparr>
 \<and> post exact_pow2 Circle shapes_app
      \<lparr>radius = None, base = Some (Fin 5), height = None, length_f = None, width = None\<rparr>
    = (Inl (HTTPException 400 ''Radius is required''), shapes_app)"
  using circle_missing_radius
    [of "\<lparr>radius = None, base = Some (Fin 5), height = None, length_f = None, width = None\<rparr>"
        exact_pow2 shapes_app]
  by (simp add: Shapes_validate_def field_errors_def value_must_be_positive_def)

text \<open>
  C6, as stated, fails: the validator runs when the model is built, before the handler
  and its presence check. A circle request with no radius and a base of \<open>-1\<close> gets the
  validation error for \<open>base\<close>, not the error for the missing radius.
\<close>

theorem invalid_field_reported_before_missing_field:
  "required_missing Circle
     \<lparr>radius = None, base = Some (Fin (- 1)), height = None, length_f = None, width = None\<rparr>
 \<and> post exact_pow2 Circle shapes_app
     \<lparr>radius = None, base = Some (Fin (- 1)), height = None, length_f = None, width = None\<rparr>
   = (Inl (ValidationError [(''base'', ''The value you entered must be positive'')]), shapes_app)"
  by (simp add: required_missing_def required_fields_def field_value_def post_def
        Shapes_validate_def field_errors_def value_must_be_positive_def)

text \<open>
  C6, amended. The positivity constraint is validated before the presence of the
  required fields: for every input to a shape operation that is both missing a required
  field and contains a present field that is less than or equal to zero, the reported
  failure is the validation error. The missing field is reported, with status 400, when
  the body has passed the validator.
\<close>

theorem validation_precedes_presence_check:
  "(required_missing r body \<and> field_value f body = Some v \<and> float_le v (Fin 0) \<longrightarrow>
      (\<exists>errs. post pw r self body = (Inl (ValidationError errs), self)))
 \<and> (required_missing r body \<and> Shapes_validate body = Inr body \<longrightarrow>
      (\<exists>d. post pw r self body = (Inl (HTTPException 400 d), self)))"
proof (intro conjI impI)
  assume "required_missing r body \<and> field_value f body = Some v \<and> float_le v (Fin 0)"
  then obtain errs where "Shapes_validate body = Inl (ValidationError errs)"
    using Shapes_validate_nonpositive by blast
  then show "\<exists>errs. post pw r self body = (Inl (ValidationError errs), self)"
    by (auto simp: post_invalid)
next
  assume "required_missing r body \<and> Shapes_validate body = Inr body"
  then show "\<exists>d. post pw r self body = (Inl (HTTPException 400 d), self)"
    by (auto simp: post_valid dest: handler_missing)
qed

theorem validation_precedes_presence_check_witness:
  "required_missing Triangle
     \<lparr>radius = None, base = Some (Fin 0), height = None, length_f = None, width = None\<rparr>
 \<and> field_value Base
     \<lparr>radius = None, base = Some (Fin 0), height = None, length_f = None, width = None\<rparr>
    = Some (Fin 0)
 \<and> float_le (Fin 0) (Fin 0)
 \<and> (\<exists>errs. post exact_pow2 Triangle shapes_app
       \<lparr>radius = None, base = Some (Fin 0), height = None, length_f = None, width = None\<rparr>
      = (Inl (ValidationError errs), shapes_app))
 \<and> required_missing Triangle
     \<lparr>radius = None, base = Some (Fin 1), height = None, length_f = None, width = None\<rparr>
 \<and> Shapes_validate
     \<lparr>radius = None, base = Some (Fin 1), height = None, length_f = None, width = None\<rparr>
    = Inr \<lparr>radius = None, base = Some (Fin 1), height = None, length_f = None, width = None\<rparr>
 \<and> (\<exists>d. post exact_pow2 Triangle shapes_app
       \<lparr>radius = None, base = Some (Fin 1), height = None, length_f = None, width = None\<rparr>
      = (Inl (HTTPException 400 d), shapes_app))"
  using validation_precedes_presence_check
    [of Triangle
        "\<lparr>radius = None, base = Some (Fin 0), height = None, length_f = None, width = None\<rparr>"
        Base "Fin 0" exact_pow2 shapes_app]
    validation_precedes_presence_check
    [of Triangle
        "\<lparr>radius = None, base = Some (Fin 1), height = None, length_f = None, width = None\<rparr>"
        Base "Fin 1" exact_pow2 shapes_app]
  by (simp add: required_missing_def required_fields_def field_value_def
        Shapes_validate_def field_errors_def value_must_be_positive_def)

text \<open>
  C7. Every successful invocation returns a result with exactly the fields of the
  requested shape, in this order: area and circumference for a circle, area and perimeter
  for a rectangle, area for a triangle. An invocation returns either such a result or an
  error, so no partial result is ever returned.
\<close>

theorem result_has_exactly_the_fields_of_the_shape:
  "post pw r self body = (Inr res, s') \<Longrightarrow> map fst res = result_fields r"
  using Shapes_validate_cases [of body]
  by (auto simp: post_valid post_invalid dest: handler_result_fields)

theorem result_has_exactly_the_fields_of_the_shape_witness:
  "post exact_pow2 Rectangle shapes_app
      \<lparr>radius = None, base = None, height = None,
       length_f = Some (Fin 3), width = Some (Fin 4)\<rparr>
    = (Inr [(''area'', Fin 12), (''perimeter'', Fin 14)], shapes_app)
 \<and> map fst [(''area'', Fin 12), (''perimeter'', Fin 14)] = result_fields Rectangle"
  using result_has_exactly_the_fields_of_the_shape [OF post_rectangle_3_4 [of exact_pow2 shapes_app]]
    post_rectangle_3_4 [of exact_pow2 shapes_app]
  by simp

text \<open>
  C8. Every operation of the Geometry Engine is deterministic and free of side effects:
  it returns the object it was called on unchanged, and its value is a function of its
  arguments alone, the same whatever the state of the object it is called on.
\<close>

theorem engine_deterministic_and_pure:
  "snd (circle_area pw self r) = self \<and> fst (circle_area pw self r) = fst (circle_area pw self' r)
 \<and> snd (circle_circumference self r) = self
 \<and> fst (circle_circumference self r) = fst (circle_circumference self' r)
 \<and> snd (rectangle_area self l w) = self
 \<and> fst (rectangle_area self l w) = fst (rectangle_area self' l w)
 \<and> snd (rectangle_perimeter self l w) = self
 \<and> fst (rectangle_perimeter self l w) = fst (rectangle_perimeter self' l w)
 \<and> snd (triangle_area self h b) = self
 \<and> fst (triangle_area self h b) = fst (triangle_area self' h b)"
  by (simp add: circle_area_def circle_circumference_def rectangle_area_def
        rectangle_perimeter_def triangle_area_def split: sum.split)

text \<open>
  C9, as stated, fails: the body with radius \<open>2 ^ 512\<close> and nothing else passes
  validation (the radius is present, positive and finite), and the circle operation
  raises the \<open>HTTPException\<close> with status 500, since the square of the radius overflows.
\<close>

theorem valid_radius_internal_error:
  "present_positive
     \<lparr>radius = Some (Fin (2 ^ 512)), base = None, height = None, length_f = None, width = None\<rparr>
 \<and> present_finite
     \<lparr>radius = Some (Fin (2 ^ 512)), base = None, height = None, length_f = None, width = None\<rparr>
 \<and> \<not> required_missing Circle
     \<lparr>radius = Some (Fin (2 ^ 512)), base = None, height = None, length_f = None, width = None\<rparr>
 \<and> post exact_pow2 Circle shapes_app
     \<lparr>radius = Some (Fin (2 ^ 512)), base = None, height = None, length_f = None, width = None\<rparr>
    = (Inl (HTTPException 500 ''(34, 'Numerical result out of range')''), shapes_app)"
proof -
  let ?b = "\<lparr>radius = Some (Fin (2 ^ 512)), base = None, height = None,
       length_f = None, width = None\<rparr>"
  have pos: "present_positive ?b"
    by (simp add: present_positive_def fields_def field_value_def)
  then have "post exact_pow2 Circle shapes_app ?b = handler exact_pow2 Circle shapes_app ?b"
    by (rule post_valid [OF Shapes_validate_positive])
  moreover have "(2::real) ^ 1024 \<le> 2 ^ 512 * 2 ^ 512" by simp
  then have "float_pow2 exact_pow2 (Fin (2 ^ 512)) = Inl OverflowError"
    by (rule float_pow2_overflow [OF exact_pow2_range_ok])
  ultimately have "post exact_pow2 Circle shapes_app ?b
      = (Inl (HTTPException 500 ''(34, 'Numerical result out of range')''), shapes_app)"
    using handler_circle [of ?b "Fin (2 ^ 512)" exact_pow2 shapes_app]
    by (simp add: str_exn_def del: float_pow2.simps)
  moreover have "present_finite ?b"
    by (simp add: present_finite_def fields_def field_value_def)
  moreover have "\<not> required_missing Circle ?b"
    by (simp add: required_missing_def required_fields_def field_value_def)
  ultimately show ?thesis using pos by blast
qed

text \<open>
  C9, amended. For every input that passes validation (all required fields of the shape
  present and every present field strictly positive and finite), the rectangle and the
  triangle operation return a result; the circle operation returns a result when the
  square of the radius is at most the largest finite double, and raises the status 500
  error when the square is \<open>2 ^ 1024\<close> or more (for a double: a radius below
  \<open>2 ^ 512\<close>, and a radius of \<open>2 ^ 512\<close> or more). The C library is any whose \<open>pow\<close>
  overflows only beyond the range of the doubles.
\<close>

theorem internal_error_only_on_square_overflow:
  "pow_range_ok pw \<Longrightarrow> present_positive body \<Longrightarrow> present_finite body \<Longrightarrow>
   \<not> required_missing r body \<Longrightarrow>
   (r = Circle \<and> radius_square_overflows body \<longrightarrow>
      post pw r self body = (Inl (HTTPException 500 (str_exn OverflowError)), self))
 \<and> (r \<noteq> Circle \<or> radius_square_fits body \<longrightarrow>
      (\<exists>res. post pw r self body = (Inr res, self)))"
proof -
  assume ok: "pow_range_ok pw" and pos: "present_positive body" and fin: "present_finite body"
    and req: "\<not> required_missing r body"
  have pv: "post pw r' self body = handler pw r' self body" for r'
    using pos by (rule post_valid [OF Shapes_validate_positive])
  show ?thesis
  proof (cases r)
    case Circle
    from req Circle obtain v where v: "radius body = Some v"
      by (auto simp: required_missing_def required_fields_def field_value_def)
    with fin obtain x where x: "v = Fin x"
      by (cases v) (simp_all add: present_finite_def fields_def field_value_def)
    have "2 ^ 1024 \<le> x * x \<Longrightarrow>
        handler pw Circle self body = (Inl (HTTPException 500 (str_exn OverflowError)), self)"
      using handler_circle [OF v, of pw self] float_pow2_overflow [OF ok, of x]
      by (simp add: x del: float_pow2.simps power_numeral)
    moreover have "x * x \<le> 2 ^ 1024 - 2 ^ 971 \<Longrightarrow>
        \<exists>res. handler pw Circle self body = (Inr res, self)"
      using handler_circle [OF v, of pw self] float_pow2_fits [OF ok, of x]
      by (auto simp: x simp del: float_pow2.simps power_numeral float_mul.simps)
    ultimately show ?thesis
      using v x
      by (simp add: pv Circle radius_square_overflows_def radius_square_fits_def
            del: power_numeral)
  next
    case Rectangle
    from req Rectangle obtain l w where "length_f body = Some l" "width body = Some w"
      by (auto simp: required_missing_def required_fields_def field_value_def)
    then show ?thesis
      by (simp add: pv Rectangle handler_rectangle del: float_mul.simps float_add.simps)
  next
    case Triangle
    from req Triangle obtain b h where "base body = Some b" "height body = Some h"
      by (auto simp: required_missing_def required_fields_def field_value_def)
    then show ?thesis
      by (simp add: pv Triangle handler_triangle del: float_mul.simps)
  qed
qed

theorem internal_error_only_on_square_overflow_witness:
  "pow_range_ok exact_pow2
 \<and> present_positive
     \<lparr>radius = Some (Fin 2), base = None, height = None, length_f = None, width = None\<rparr>
 \<and> present_finite
     \<lparr>radius = Some (Fin 2), base = None, height = None, length_f = None, width = None\<rparr>
 \<and> \<not> required_missing Circle
     \<lparr>radius = Some (Fin 2), base = None, height = None, length_f = None, width = None\<rparr>
 \<and> radius_square_fits
     \<lparr>radius = Some (Fin 2), base = None, height = None, length_f = None, width = None\<rparr>
 \<and> (\<exists>res. post exact_pow2 Circle shapes_app
       \<lparr>radius = Some (Fin 2), base = None, height = None, length_f = None, width = None\<rparr>
      = (Inr res, shapes_app))
 \<and> present_positive
     \<lparr>radius = Some (Fin (2 ^ 520)), base = None, height = None, length_f = None, width = None\<rparr>
 \<and> present_finite
     \<lparr>radius = Some (Fin (2 ^ 520)), base = None, height = None, length_f = None, width = None\<rparr>
 \<and> \<not> required_missing Circle
     \<lparr>radius = Some (Fin (2 ^ 520)), base = None, height = None, length_f = None, width = None\<rparr>
 \<and> radius_square_overflows
     \<lparr>radius = Some (Fin (2 ^ 520)), base = None, height = None, length_f = None, width = None\<rparr>
 \<and> post exact_pow2 Circle shapes_app
     \<lparr>radius = Some (Fin (2 ^ 520)), base = None, height = None, length_f = None, width = None\<rparr>
    = (Inl (HTTPException 500 (str_exn OverflowError)), shapes_app)"
  using internal_error_only_on_square_overflow
    [OF exact_pow2_range_ok,
     of "\<lparr>radius = Some (Fin 2), base = None, height = None, length_f = None, width = None\<rparr>"
        Circle shapes_app]
    internal_error_only_on_square_overflow
    [OF exact_pow2_range_ok,
     of "\<lparr>radius = Some (Fin (2 ^ 520)), base = None, height = None,
          length_f = None, width = None\<rparr>"
        Circle shapes_app]
    exact_pow2_range_ok
  by (simp add: present_positive_def present_finite_def fields_def field_value_def
        required_missing_def required_fields_def radius_square_overflows_def
        radius_square_fits_def)

text \<open>
  C10. The result of a shape operation depends only on the required fields of the shape:
  two bodies that pass validation and agree on the required fields of a shape (the radius
  for a circle, length and width for a rectangle, base and height for a triangle) get the
  same outcome, whatever their other fields are.
\<close>

theorem result_depends_on_required_fields_only:
  "Shapes_validate b1 = Inr s1 \<Longrightarrow> Shapes_validate b2 = Inr s2 \<Longrightarrow>
   list_all (\<lambda>f. field_value f b1 = field_value f b2) (required_fields r) \<Longrightarrow>
   post pw r self b1 = post pw r self b2"
  by (simp add: post_valid handler_required_only)

theorem result_depends_on_required_fields_only_witness:
  "Shapes_validate
     \<lparr>radius = Some (Fin 2), base = None, height = None, length_f = None, width = None\<rparr>
   = Inr \<lparr>radius = Some (Fin 2), base = None, height = None, length_f = None, width = None\<rparr>
 \<and> Shapes_validate
     \<lparr>radius = Some (Fin 2), base = Some (Fin 5), height = None,
      length_f = Some (Fin 3), width = Some PInf\<rparr>
   = Inr \<lparr>radius = Some (Fin 2), base = Some (Fin 5), height = None,
      length_f = Some (Fin 3), width = Some PInf\<rparr>
 \<and> list_all (\<lambda>f. field_value f
       \<lparr>radius = Some (Fin 2), base = None, height = None, length_f = None, width = None\<rparr>
     = field_value f
       \<lparr>radius = Some (Fin 2), base = Some (Fin 5), height = None,
        length_f = Some (Fin 3), width = Some PInf\<rparr>) (required_fields Circle)
 \<and> post exact_pow2 Circle shapes_app
     \<lparr>radius = Some (Fin 2), base = None, height = None, length_f = None, width = None\<rparr>
   = post exact_pow2 Circle shapes_app
     \<lparr>radius = Some (Fin 2), base = Some (Fin 5), height = None,
      length_f = Some (Fin 3), width = Some PInf\<rparr>"
proof -
  let ?b1 = "\<lparr>radius = Some (Fin 2), base = None, height = None, length_f = None, width = None\<rparr>"
  let ?b2 = "\<lparr>radius = Some (Fin 2), base = Some (Fin 5), height = None,
      length_f = Some (Fin 3), width = Some PInf\<rparr>"
  have v1: "Shapes_validate ?b1 = Inr ?b1" and v2: "Shapes_validate ?b2 = Inr ?b2"
    by (simp_all add: Shapes_validate_def field_errors_def value_must_be_positive_def)
  have eq: "list_all (\<lambda>f. field_value f ?b1 = field_value f ?b2) (required_fields Circle)"
    by (simp add: required_fields_def field_value_def)
  from result_depends_on_required_fields_only [OF v1 v2 eq] v1 v2 eq
  show ?thesis by blast
qed

end
